theory Spec2Isabelle
  imports Main "HOL-Library.Word"
begin

unbundle bit_operations_syntax

section \<open>The Capacity Aware Superset Scheduler: kernel/sched/cass.c\<close>

text \<open>
  The file has one function, \<^verbatim>\<open>cass_select_task_rq_fair\<close>, the macro
  \<^verbatim>\<open>lsub_positive\<close> and the struct \<^verbatim>\<open>cass_cpu_cand\<close>. Everything else it
  calls lives in other files of the kernel (kernel/sched/fair.c, the cpumask and bitmap
  headers, the scheduler's flag constants).
\<close>

subsection \<open>Data\<close>

text \<open>
  \<^verbatim>\<open>unsigned long\<close> on arm64 (the target of this tree) is 64 bits wide; \<open>+\<close> and
  \<open>-\<close> on it wrap around. \<^verbatim>\<open>int\<close> flag arguments and \<^verbatim>\<open>unsigned int\<close> task
  flags are 32 bits wide and are only ever tested bitwise. CPU numbers are C \<^verbatim>\<open>int\<close>s;
  the function only copies and compares them, so they are modelled as \<open>int\<close>.
\<close>

type_synonym ulong = "64 word"
type_synonym flags = "32 word"

text \<open>
  A \<^verbatim>\<open>struct cpumask\<close> is a bitmap of \<^verbatim>\<open>nr_cpumask_bits\<close> bits: an \<open>'n word\<close>,
  where \<open>LENGTH('n)\<close> stands for \<^verbatim>\<open>nr_cpumask_bits\<close>. Bit \<open>i\<close> set means CPU \<open>i\<close>
  is in the mask.
\<close>

type_synonym 'n cpumask = "'n word"

text \<open>\<^verbatim>\<open>struct cass_cpu_cand { int cpu; unsigned long load; };\<close>\<close>

record cass_cpu_cand =
  cpu :: int
  load :: ulong

text \<open>
  The one fault of the model: \<^verbatim>\<open>cpumask_test_cpu\<close> is asked for a CPU number that
  is negative or not below \<^verbatim>\<open>nr_cpumask_bits\<close>. That is outside what the cpumask
  interface allows (\<^verbatim>\<open>cpumask_check\<close>) and reads beyond the bits of the mask; what
  the function does after it is not determined by its source.
\<close>

datatype fault = Bitmap_Index_Out_Of_Range

text \<open>
  What the function reads and calls but does not define. \<open>'t\<close> is the type of task
  pointers (\<^verbatim>\<open>struct task_struct *\<close>; \<^verbatim>\<open>current == p\<close> compares two of them),
  \<open>'s\<close> the state of the scheduler that the collaborators read and update.

  Reads of memory: \<open>current\<close>, \<open>task_flags\<close> (\<^verbatim>\<open>t->flags\<close>), \<open>oom_score_adj\<close>
  (\<^verbatim>\<open>t->signal->oom_score_adj\<close>), \<open>task_on_rq_queued\<close>, \<open>smp_processor_id\<close>,
  \<open>cfs_load_avg\<close> (\<^verbatim>\<open>cpu_rq(cpu)->cfs.avg.load_avg\<close>), \<open>task_h_load\<close> and the three
  global masks. Calls with an effect: \<open>record_wakee\<close> and \<open>sync_entity_load_avg\<close>, which
  return the new state. Calls that decide: \<open>wake_wide\<close> (a C \<^verbatim>\<open>int\<close> that is only
  tested for zero, here a \<open>bool\<close>), \<open>wake_affine_idle\<close> (which answers
  \<^verbatim>\<open>nr_cpumask_bits\<close> when it finds no CPU) and \<open>select_idle_sibling\<close>. The flag
  constants come from headers that are not part of this file; \<open>WF_TTWU\<close> is \<open>0\<close>
  when no header defines it (lines 28-30).
\<close>

record (overloaded) ('t, 's, 'n) kernel =
  current :: 't
  smp_processor_id :: int
  task_flags :: "'s \<Rightarrow> 't \<Rightarrow> flags"
  oom_score_adj :: "'s \<Rightarrow> 't \<Rightarrow> int"
  task_on_rq_queued :: "'s \<Rightarrow> 't \<Rightarrow> bool"
  cpu_online_mask :: "'n cpumask"
  cpu_perf_mask :: "'n cpumask"
  cpu_lp_mask :: "'n cpumask"
  record_wakee :: "'t \<Rightarrow> 's \<Rightarrow> 's"
  wake_wide :: "'s \<Rightarrow> 't \<Rightarrow> int \<Rightarrow> bool"
  wake_affine_idle :: "'s \<Rightarrow> int \<Rightarrow> int \<Rightarrow> bool \<Rightarrow> int"
  select_idle_sibling :: "'s \<Rightarrow> 't \<Rightarrow> int \<Rightarrow> int \<Rightarrow> int"
  sync_entity_load_avg :: "'t \<Rightarrow> 's \<Rightarrow> 's"
  task_h_load :: "'s \<Rightarrow> 't \<Rightarrow> ulong"
  cfs_load_avg :: "'s \<Rightarrow> int \<Rightarrow> ulong"
  SD_BALANCE_WAKE :: flags
  SD_BALANCE_FORK :: flags
  WF_SYNC :: flags
  WF_FORK :: flags
  WF_TTWU :: flags
  PF_EXITING :: flags

subsection \<open>The cpumask operations the function uses\<close>

text \<open>\<^verbatim>\<open>nr_cpumask_bits\<close>, as the \<^verbatim>\<open>int\<close> that \<^verbatim>\<open>wa_cpu\<close> is compared with.\<close>

definition nr_cpumask_bits :: "'n::len cpumask \<Rightarrow> int" where
  "nr_cpumask_bits m = int LENGTH('n)"

text \<open>
  \<^verbatim>\<open>cpumask_and(dst, a, b)\<close> stores the bitwise and in \<^verbatim>\<open>dst\<close> and returns whether
  any bit of it is set; \<^verbatim>\<open>cpumask_copy(dst, a)\<close> stores \<^verbatim>\<open>a\<close>.
\<close>

definition cpumask_and :: "'n::len cpumask \<Rightarrow> 'n cpumask \<Rightarrow> 'n cpumask \<times> bool" where
  "cpumask_and a b = (a AND b, a AND b \<noteq> 0)"

definition cpumask_copy :: "'n::len cpumask \<Rightarrow> 'n cpumask" where
  "cpumask_copy a = a"

text \<open>
  \<^verbatim>\<open>cpumask_test_cpu(cpu, mask)\<close> is \<^verbatim>\<open>test_bit(cpumask_check(cpu), mask->bits)\<close>:
  the bit of the CPU for a CPU number from 0 to \<^verbatim>\<open>nr_cpumask_bits - 1\<close>, a fault
  otherwise.
\<close>

definition cpumask_test_cpu :: "int \<Rightarrow> 'n::len cpumask \<Rightarrow> fault + bool" where
  "cpumask_test_cpu c m =
     (if 0 \<le> c \<and> c < int LENGTH('n) then Inr (bit m (nat c))
      else Inl Bitmap_Index_Out_Of_Range)"

text \<open>
  \<^verbatim>\<open>for_each_cpu(cpu, mask)\<close> runs its body for the set bits of the mask, from bit 0
  upwards. (The kernel stops at \<^verbatim>\<open>nr_cpu_ids\<close>; no mask has a bit set at or above
  it, and the model takes the width of the mask for both.)
\<close>

definition for_each_cpu :: "'n::len cpumask \<Rightarrow> int list" where
  "for_each_cpu m = map int (filter (bit m) [0..<LENGTH('n)])"

text \<open>Membership of a CPU number in a mask, for stating properties.\<close>

definition cpu_isset :: "int \<Rightarrow> 'n::len cpumask \<Rightarrow> bool" where
  "cpu_isset c m \<longleftrightarrow> 0 \<le> c \<and> bit m (nat c)"

definition cpus_of :: "'n::len cpumask \<Rightarrow> int set" where
  "cpus_of m = {c. cpu_isset c m}"

subsection \<open>lsub_positive (lines 32-35)\<close>

text \<open>\<^verbatim>\<open>*ptr -= min_t(typeof(*ptr), *ptr, _val)\<close>, returning the new \<^verbatim>\<open>*ptr\<close>.\<close>

definition lsub_positive :: "ulong \<Rightarrow> ulong \<Rightarrow> ulong" where
  "lsub_positive x v = x - min x v"

subsection \<open>cass_select_task_rq_fair (lines 42-141), in the order of the source\<close>

text \<open>
  Line 46: \<^verbatim>\<open>(wake_flags & WF_SYNC) && !(current->flags & PF_EXITING)\<close>. The C value
  is 0 or 1; the model keeps it as a \<open>bool\<close>.
\<close>

definition cass_sync :: "('t, 's, 'n::len) kernel \<Rightarrow> 's \<Rightarrow> flags \<Rightarrow> bool" where
  "cass_sync k st wake_flags \<longleftrightarrow>
     wake_flags AND WF_SYNC k \<noteq> 0 \<and> \<not> (task_flags k st (current k) AND PF_EXITING k \<noteq> 0)"

text \<open>Line 47: \<^verbatim>\<open>task_on_rq_queued(p) || current == p\<close>.\<close>

definition cass_p_queued :: "('t, 's, 'n::len) kernel \<Rightarrow> 's \<Rightarrow> 't \<Rightarrow> bool" where
  "cass_p_queued k st p \<longleftrightarrow> task_on_rq_queued k st p \<or> current k = p"

text \<open>Lines 58-61: the CPUs the task may be placed on.\<close>

definition cass_cpus :: "('t, 's, 'n::len) kernel \<Rightarrow> 's \<Rightarrow> 't \<Rightarrow> 'n cpumask" where
  "cass_cpus k st p =
     (let adj = oom_score_adj k st p;
          asym_cpus = (if adj > -1 \<and> adj < 225 then cpu_perf_mask k else cpu_lp_mask k);
          (cpus, nonempty) = cpumask_and (cpu_online_mask k) asym_cpus
      in if \<not> nonempty then cpumask_copy (cpu_online_mask k) else cpus)"

text \<open>
  Line 66: the condition that opens the wake-affine block, and line 85 (negated): the
  condition under which the task's load is left at 0.
\<close>

definition cass_is_wake :: "('t, 's, 'n::len) kernel \<Rightarrow> flags \<Rightarrow> flags \<Rightarrow> bool" where
  "cass_is_wake k sd_flag wake_flags \<longleftrightarrow>
     sd_flag AND SD_BALANCE_WAKE k \<noteq> 0 \<or> wake_flags AND WF_TTWU k \<noteq> 0"

definition cass_is_fork :: "('t, 's, 'n::len) kernel \<Rightarrow> flags \<Rightarrow> flags \<Rightarrow> bool" where
  "cass_is_fork k sd_flag wake_flags \<longleftrightarrow>
     sd_flag AND SD_BALANCE_FORK k \<noteq> 0 \<or> wake_flags AND WF_FORK k \<noteq> 0"

text \<open>
  Lines 71-72: \<^verbatim>\<open>!wake_wide(p, sibling_count_hint) && cpumask_test_cpu(cpu, &cpus)\<close>.
  The variable \<^verbatim>\<open>cpu\<close> is declared on line 48 without an initialiser and is first
  assigned by the loop of line 103, so the value tested here is indeterminate: it is
  the argument \<open>cpu0\<close> of the model. \<^verbatim>\<open>&&\<close> evaluates the test only when
  \<^verbatim>\<open>wake_wide\<close> returned false.
\<close>

definition cass_want_affine ::
  "('t, 's, 'n::len) kernel \<Rightarrow> int \<Rightarrow> 's \<Rightarrow> 't \<Rightarrow> int \<Rightarrow> 'n cpumask \<Rightarrow> fault + bool" where
  "cass_want_affine k cpu0 st p sibling_count_hint cpus =
     (if wake_wide k st p sibling_count_hint then Inr False
      else cpumask_test_cpu cpu0 cpus)"

text \<open>
  Lines 66-79: the wake-affine block. It yields \<open>Some r\<close> when line 78 returns \<open>r\<close>
  and \<open>None\<close> when control goes on to line 85, together with \<^verbatim>\<open>want_affine\<close> and
  the state after \<^verbatim>\<open>record_wakee\<close>.
\<close>

definition cass_idle_path ::
  "('t, 's, 'n::len) kernel \<Rightarrow> int \<Rightarrow> 's \<Rightarrow> 't \<Rightarrow> int \<Rightarrow> flags \<Rightarrow> flags \<Rightarrow> int \<Rightarrow>
     'n cpumask \<Rightarrow> bool \<Rightarrow> fault + (int option \<times> bool \<times> 's)" where
  "cass_idle_path k cpu0 st p prev_cpu sd_flag wake_flags sibling_count_hint cpus sync =
     (if cass_is_wake k sd_flag wake_flags then
        (let st1 = record_wakee k p st in
         case cass_want_affine k cpu0 st1 p sibling_count_hint cpus of
           Inl e \<Rightarrow> Inl e
         | Inr want_affine \<Rightarrow>
             (let wa_cpu = (if want_affine
                            then wake_affine_idle k st1 (smp_processor_id k) prev_cpu sync
                            else nr_cpumask_bits cpus)
              in if wa_cpu \<noteq> nr_cpumask_bits cpus
                 then Inr (Some (select_idle_sibling k st1 p prev_cpu wa_cpu), want_affine, st1)
                 else Inr (None, want_affine, st1)))
      else Inr (None, False, st))"

text \<open>Lines 85-88: the task's load and the state after the refresh, if there is one.\<close>

definition cass_p_load ::
  "('t, 's, 'n::len) kernel \<Rightarrow> 's \<Rightarrow> 't \<Rightarrow> flags \<Rightarrow> flags \<Rightarrow> ulong \<times> 's" where
  "cass_p_load k st p sd_flag wake_flags =
     (if \<not> cass_is_fork k sd_flag wake_flags
      then (let st2 = sync_entity_load_avg k p st in (task_h_load k st2 p, st2))
      else (0, st))"

text \<open>
  Lines 109-127: the load of one candidate. \<open>p_load\<close>, \<open>sync\<close> and \<open>p_queued\<close> are the
  locals of those names at the time the loop runs.
\<close>

definition cass_load ::
  "('t, 's, 'n::len) kernel \<Rightarrow> 's \<Rightarrow> ulong \<Rightarrow> bool \<Rightarrow> bool \<Rightarrow> int \<Rightarrow> int \<Rightarrow> ulong" where
  "cass_load k st p_load sync p_queued prev_cpu c =
     (let l = cfs_load_avg k st c in
      if sync then
        (let l = (if c \<noteq> prev_cpu then l + p_load else l) in
         if c = smp_processor_id k then lsub_positive l (task_h_load k st (current k)) else l)
      else
        (let l = (if p_queued \<and> c \<noteq> prev_cpu then l + p_load else l) in
         if \<not> p_queued then l + p_load else l))"

text \<open>
  The locals of the loop: the two slots \<^verbatim>\<open>cands[0]\<close> and \<^verbatim>\<open>cands[1]\<close>, the slot
  \<^verbatim>\<open>best\<close> points to, and \<^verbatim>\<open>cidx\<close>. The array is declared without an initialiser:
  its starting contents \<open>cands0\<close> are an argument of the model.
\<close>

record cass_locals =
  cands :: "nat \<Rightarrow> cass_cpu_cand"
  best :: nat
  cidx :: nat

text \<open>Lines 105-137: one pass of the loop body for CPU \<open>c\<close>, whose load is \<open>ld c\<close>.\<close>

definition cass_body :: "(int \<Rightarrow> ulong) \<Rightarrow> cass_locals \<Rightarrow> int \<Rightarrow> cass_locals" where
  "cass_body ld s c =
     (let curr = cidx s;
          s1 = s\<lparr>cands := (cands s)(curr := \<lparr>cpu = c, load = ld c\<rparr>)\<rparr>
      in if best s1 = curr \<or> load (cands s1 curr) \<le> load (cands s1 (best s1))
         then s1\<lparr>best := curr, cidx := cidx s1 XOR 1\<rparr>
         else s1)"

text \<open>Lines 103-140: the loop over the mask, then \<^verbatim>\<open>return best->cpu\<close>.\<close>

definition cass_find_best ::
  "(int \<Rightarrow> ulong) \<Rightarrow> (nat \<Rightarrow> cass_cpu_cand) \<Rightarrow> 'n::len cpumask \<Rightarrow> int" where
  "cass_find_best ld cands0 cpus =
     (let s = foldl (cass_body ld) \<lparr>cands = cands0, best = 0, cidx = 0\<rparr> (for_each_cpu cpus)
      in cpu (cands s (best s)))"

text \<open>
  The whole function. Its result is the CPU it returns together with the state the
  collaborators left behind, or the fault of the test on line 72. Line 93,
  \<^verbatim>\<open>sync &= want_affine\<close>, is the conjunction passed to \<open>cass_load\<close>.
\<close>

definition cass_select_task_rq_fair ::
  "('t, 's, 'n::len) kernel \<Rightarrow> int \<Rightarrow> (nat \<Rightarrow> cass_cpu_cand) \<Rightarrow> 's \<Rightarrow>
     't \<Rightarrow> int \<Rightarrow> flags \<Rightarrow> flags \<Rightarrow> int \<Rightarrow> fault + (int \<times> 's)" where
  "cass_select_task_rq_fair k cpu0 cands0 st p prev_cpu sd_flag wake_flags sibling_count_hint =
     (let sync = cass_sync k st wake_flags;
          p_queued = cass_p_queued k st p;
          cpus = cass_cpus k st p
      in case cass_idle_path k cpu0 st p prev_cpu sd_flag wake_flags sibling_count_hint cpus sync of
           Inl e \<Rightarrow> Inl e
         | Inr (Some r, want_affine, st1) \<Rightarrow> Inr (r, st1)
         | Inr (None, want_affine, st1) \<Rightarrow>
             (let (p_load, st2) = cass_p_load k st1 p sd_flag wake_flags;
                  sync = (sync \<and> want_affine)
              in Inr (cass_find_best (cass_load k st2 p_load sync p_queued prev_cpu) cands0 cpus,
                      st2)))"

subsection \<open>The reducer as the specification words it\<close>

text \<open>
  Section 4.4 of the specification: keep a running best, initialised from the first
  candidate; a later candidate replaces it when its load is less than or equal to the
  best's. \<open>None\<close> for an empty sequence, which the specification excludes.
\<close>

definition reducer_pick :: "(int \<Rightarrow> ulong) \<Rightarrow> int \<Rightarrow> int \<Rightarrow> int" where
  "reducer_pick ld b c = (if ld c \<le> ld b then c else b)"

fun reducer :: "(int \<Rightarrow> ulong) \<Rightarrow> int list \<Rightarrow> int option" where
  "reducer ld [] = None"
| "reducer ld (c # cs) = Some (foldl (reducer_pick ld) c cs)"

text \<open>
  The invariant of the loop once it has seen a candidate: \<^verbatim>\<open>best\<close> points to one slot,
  \<^verbatim>\<open>cidx\<close> names the other, and the slot of \<^verbatim>\<open>best\<close> holds CPU \<open>b\<close> with its load.
\<close>

definition holds_best :: "(int \<Rightarrow> ulong) \<Rightarrow> cass_locals \<Rightarrow> int \<Rightarrow> bool" where
  "holds_best ld s b \<longleftrightarrow>
     (best s = 0 \<and> cidx s = 1 \<or> best s = 1 \<and> cidx s = 0) \<and>
     cands s (best s) = \<lparr>cpu = b, load = ld b\<rparr>"

subsection \<open>A concrete system\<close>

text \<open>
  Scenario 1 of the specification: CPUs 0-3 online, 0 and 1 in the performance mask,
  2 and 3 in the low-power mask, loads 100, 100, 50, 50, the task's load 20 once it
  has been refreshed (7 before), the waker's load 15. The state is the list of the
  collaborator calls that had an effect. The flag constants are those of Linux 4.14.
\<close>

datatype event = Record_Wakee | Sync_Entity_Load_Avg

definition demo :: "(nat, event list, 8) kernel" where
  "demo = \<lparr>
     current = 2,
     smp_processor_id = 0,
     task_flags = (\<lambda>st t. 0),
     oom_score_adj = (\<lambda>st t. 0),
     task_on_rq_queued = (\<lambda>st t. False),
     cpu_online_mask = 0x0F,
     cpu_perf_mask = 0x03,
     cpu_lp_mask = 0x0C,
     record_wakee = (\<lambda>t st. st @ [Record_Wakee]),
     wake_wide = (\<lambda>st t hint. False),
     wake_affine_idle = (\<lambda>st this_cpu prev_cpu sync. 8),
     select_idle_sibling = (\<lambda>st t prev_cpu target. target),
     sync_entity_load_avg = (\<lambda>t st. st @ [Sync_Entity_Load_Avg]),
     task_h_load = (\<lambda>st t. if t = 2 then 15 else if Sync_Entity_Load_Avg \<in> set st then 20 else 7),
     cfs_load_avg = (\<lambda>st c. if c = 0 \<or> c = 1 then 100 else 50),
     SD_BALANCE_WAKE = 0x10,
     SD_BALANCE_FORK = 0x08,
     WF_SYNC = 0x01,
     WF_FORK = 0x02,
     WF_TTWU = 0,
     PF_EXITING = 0x04 \<rparr>"

text \<open>Starting contents of \<^verbatim>\<open>cands\<close> that would win every comparison if they were read.\<close>

definition stale :: "nat \<Rightarrow> cass_cpu_cand" where
  "stale i = \<lparr>cpu = -1, load = 0\<rparr>"

text \<open>
  Variations of it: the idle search answers with the previous CPU while only CPUs 0
  and 1 are online; the idle search answers with the waking CPU; the same with the
  wakeup running on CPU 2; the task being placed is \<^verbatim>\<open>current\<close>; scenario 3 of the
  specification (loads 40 and 40, task load 10, waker's load 15).
\<close>

definition demo_offline :: "(nat, event list, 8) kernel" where
  "demo_offline =
     demo\<lparr>cpu_online_mask := 0x03,
          wake_affine_idle := (\<lambda>st this_cpu prev_cpu sync. prev_cpu)\<rparr>"

definition demo_idle :: "(nat, event list, 8) kernel" where
  "demo_idle = demo\<lparr>wake_affine_idle := (\<lambda>st this_cpu prev_cpu sync. this_cpu)\<rparr>"

definition demo_cpu2 :: "(nat, event list, 8) kernel" where
  "demo_cpu2 = demo_idle\<lparr>smp_processor_id := 2\<rparr>"

definition demo_self :: "(nat, event list, 8) kernel" where
  "demo_self = demo\<lparr>current := 5\<rparr>"

definition demo_sync :: "(nat, event list, 8) kernel" where
  "demo_sync =
     demo\<lparr>cfs_load_avg := (\<lambda>st c. 40),
          task_h_load := (\<lambda>st t. if t = 2 then 15 else 10)\<rparr>"

section \<open>Properties\<close>

subsection \<open>Masks as sets\<close>

lemma cpus_of_and: "cpus_of (a AND b) = cpus_of a \<inter> cpus_of b"
  by (auto simp: cpus_of_def cpu_isset_def bit_and_iff)

lemma cpus_of_empty: "cpus_of m = {} \<longleftrightarrow> m = 0"
proof
  assume e: "cpus_of m = {}"
  have "\<not> bit m i" for i
  proof
    assume "bit m i"
    then have "int i \<in> cpus_of m" by (simp add: cpus_of_def cpu_isset_def)
    with e show False by simp
  qed
  then show "m = 0" by (simp add: bit_eq_iff)
next
  assume "m = 0" then show "cpus_of m = {}" by (simp add: cpus_of_def cpu_isset_def)
qed

lemma set_for_each_cpu: "set (for_each_cpu m) = cpus_of m"
proof -
  have "bit m i \<Longrightarrow> i < LENGTH('a)" for i and m :: "'a::len word"
    by (rule bit_imp_le_length)
  then show ?thesis
    apply (auto simp: for_each_cpu_def cpus_of_def cpu_isset_def)
    subgoal for x by (rule image_eqI[where x="nat x"]) auto
    done
qed

lemma sorted_for_each_cpu: "sorted (for_each_cpu m)"
  unfolding for_each_cpu_def
  by (simp add: sorted_map sorted_wrt_filter)

lemma for_each_cpu_nonempty: "m \<noteq> 0 \<Longrightarrow> for_each_cpu m \<noteq> []"
  using set_for_each_cpu [of m] cpus_of_empty [of m] by auto

lemma cass_cpus_eq:
  "cass_cpus k st p =
     (let tier = (if -1 < oom_score_adj k st p \<and> oom_score_adj k st p < 225
                  then cpu_perf_mask k else cpu_lp_mask k)
      in if cpu_online_mask k AND tier = 0 then cpu_online_mask k else cpu_online_mask k AND tier)"
  by (simp add: cass_cpus_def cpumask_and_def cpumask_copy_def Let_def)

lemma cass_cpus_online: "cpu_isset c (cass_cpus k st p) \<Longrightarrow> cpu_isset c (cpu_online_mask k)"
  by (auto simp: cass_cpus_eq Let_def cpu_isset_def bit_and_iff split: if_splits)

lemma cass_cpus_nonzero: "cpu_online_mask k \<noteq> 0 \<Longrightarrow> cass_cpus k st p \<noteq> 0"
  by (auto simp: cass_cpus_eq Let_def)

subsection \<open>lsub_positive\<close>

lemma uint_lsub_positive: "uint (lsub_positive x v) = max 0 (uint x - uint v)"
proof (cases "v \<le> x")
  case True
  then have "uint v \<le> uint x" by (simp add: word_le_def)
  then have "uint (x - v) = uint x - uint v" by (simp add: uint_sub_lem)
  with True \<open>uint v \<le> uint x\<close> show ?thesis by (simp add: lsub_positive_def min_def)
next
  case False
  then have lt: "uint x < uint v" by (simp add: word_le_def)
  from False have "x \<le> v" by simp
  then have "min x v = x" by (simp add: min_def)
  with lt show ?thesis by (simp add: lsub_positive_def)
qed

lemma lsub_positive_zero: "lsub_positive x 0 = x"
  by (simp add: lsub_positive_def)

lemma uint_ulong_add: "uint x + uint y < 2 ^ 64 \<Longrightarrow> uint (x + y) = uint x + uint (y :: ulong)"
  by (simp add: uint_add_lem [symmetric])

subsection \<open>The loop\<close>

lemma cass_body_first:
  "holds_best ld (cass_body ld \<lparr>cands = cands0, best = 0, cidx = 0\<rparr> c) c"
  by (simp add: cass_body_def holds_best_def Let_def)

lemma cass_body_later:
  assumes "holds_best ld s b"
  shows "holds_best ld (cass_body ld s c) (reducer_pick ld b c)"
  using assms
  by (auto simp: cass_body_def holds_best_def Let_def reducer_pick_def)

lemma cass_loop_later:
  "holds_best ld s b \<Longrightarrow>
   holds_best ld (foldl (cass_body ld) s cs) (foldl (reducer_pick ld) b cs)"
proof (induction cs arbitrary: s b)
  case Nil
  then show ?case by simp
next
  case (Cons c cs)
  from Cons.prems have "holds_best ld (cass_body ld s c) (reducer_pick ld b c)"
    by (rule cass_body_later)
  then show ?case using Cons.IH by simp
qed

lemma cass_find_best_reducer:
  assumes "for_each_cpu cpus = c # cs"
  shows "cass_find_best ld cands0 cpus = foldl (reducer_pick ld) c cs"
proof -
  have "holds_best ld (foldl (cass_body ld) (cass_body ld \<lparr>cands = cands0, best = 0, cidx = 0\<rparr> c) cs)
          (foldl (reducer_pick ld) c cs)"
    by (rule cass_loop_later [OF cass_body_first])
  then show ?thesis
    by (simp add: cass_find_best_def assms holds_best_def Let_def)
qed

lemma reducer_pick_split:
  "\<exists>ys zs. x # xs = ys @ foldl (reducer_pick ld) x xs # zs \<and>
     (\<forall>c\<in>set ys. ld (foldl (reducer_pick ld) x xs) \<le> ld c) \<and>
     (\<forall>c\<in>set zs. ld (foldl (reducer_pick ld) x xs) < ld c)"
proof (induction xs rule: rev_induct)
  case Nil
  have "[x] = [] @ x # [] \<and> (\<forall>c\<in>set []. ld x \<le> ld c) \<and> (\<forall>c\<in>set []. ld x < ld c)"
    by simp
  then show ?case unfolding foldl_Nil by blast
next
  case (snoc y xs)
  define r where "r = foldl (reducer_pick ld) x xs"
  from snoc obtain ys zs where split: "x # xs = ys @ r # zs"
    and before: "\<forall>c\<in>set ys. ld r \<le> ld c" and after: "\<forall>c\<in>set zs. ld r < ld c"
    unfolding r_def by blast
  show ?case
  proof (cases "ld y \<le> ld r")
    case True
    then have r': "foldl (reducer_pick ld) x (xs @ [y]) = y"
      by (simp add: reducer_pick_def r_def)
    have "\<forall>c\<in>set (x # xs). ld y \<le> ld c"
    proof
      fix c assume "c \<in> set (x # xs)"
      then have "c \<in> set ys \<or> c = r \<or> c \<in> set zs" unfolding split by auto
      then have "ld r \<le> ld c" using before after by (auto simp: less_imp_le)
      with True show "ld y \<le> ld c" by simp
    qed
    then have "x # (xs @ [y]) = (x # xs) @ y # [] \<and> (\<forall>c\<in>set (x # xs). ld y \<le> ld c) \<and>
      (\<forall>c\<in>set []. ld y < ld c)" by simp
    then show ?thesis unfolding r' by blast
  next
    case False
    then have r': "foldl (reducer_pick ld) x (xs @ [y]) = r"
      by (simp add: reducer_pick_def r_def)
    from False have "ld r < ld y" by simp
    with after have "\<forall>c\<in>set (zs @ [y]). ld r < ld c" by simp
    moreover have "x # (xs @ [y]) = ys @ r # (zs @ [y])" using split by simp
    ultimately show ?thesis unfolding r' using before by blast
  qed
qed

text \<open>The CPU the loop returns: in the mask, of least load, and the highest such.\<close>

lemma cass_find_best_props:
  assumes "cpus \<noteq> 0"
  shows "cpu_isset (cass_find_best ld cands0 cpus) cpus"
    and "cpu_isset c cpus \<Longrightarrow> ld (cass_find_best ld cands0 cpus) \<le> ld c"
    and "cpu_isset c cpus \<Longrightarrow> ld c = ld (cass_find_best ld cands0 cpus) \<Longrightarrow>
           c \<le> cass_find_best ld cands0 cpus"
proof -
  from assms obtain x xs where l: "for_each_cpu cpus = x # xs"
    using for_each_cpu_nonempty [of cpus] by (cases "for_each_cpu cpus") auto
  define r where "r = cass_find_best ld cands0 cpus"
  have r: "r = foldl (reducer_pick ld) x xs"
    unfolding r_def by (rule cass_find_best_reducer [OF l])
  from reducer_pick_split [of x xs ld] obtain ys zs where split: "x # xs = ys @ r # zs"
    and before: "\<forall>c\<in>set ys. ld r \<le> ld c" and after: "\<forall>c\<in>set zs. ld r < ld c"
    unfolding r [symmetric] by blast
  have mem: "cpu_isset c cpus \<longleftrightarrow> c \<in> set ys \<or> c = r \<or> c \<in> set zs" for c
    using set_for_each_cpu [of cpus] unfolding l split cpus_of_def by auto
  from mem [of r] show "cpu_isset (cass_find_best ld cands0 cpus) cpus"
    unfolding r_def by simp
  { assume "cpu_isset c cpus"
    with mem have "c \<in> set ys \<or> c = r \<or> c \<in> set zs" by simp
    with before after show "ld (cass_find_best ld cands0 cpus) \<le> ld c"
      unfolding r_def [symmetric] by (auto simp: less_imp_le) }
  { assume "cpu_isset c cpus" and tie: "ld c = ld (cass_find_best ld cands0 cpus)"
    with mem after have c: "c \<in> set ys \<or> c = r" unfolding r_def [symmetric] by auto
    have "sorted (ys @ r # zs)" using sorted_for_each_cpu [of cpus] unfolding l split .
    then have "\<forall>y\<in>set ys. y \<le> r" by (simp add: sorted_append)
    with c show "c \<le> cass_find_best ld cands0 cpus" unfolding r_def [symmetric] by auto }
qed

lemma cpus_of_inter_empty: "cpus_of a \<inter> cpus_of b = {} \<longleftrightarrow> a AND b = 0"
  using cpus_of_empty [of "a AND b"] by (simp add: cpus_of_and)

subsection \<open>The candidate universe\<close>

text \<open>
  Claim C2. The CPUs the task may be placed on are the online CPUs of the performance
  mask when \<^verbatim>\<open>oom_score_adj\<close> lies strictly between -1 and 225, and the online CPUs
  of the low-power mask otherwise; when that intersection is empty they are all the
  online CPUs. So some CPU may be chosen whenever some CPU is online.
\<close>

theorem cass_cpus_tier:
  "cpus_of (cass_cpus k st p) =
     (let tier = (if -1 < oom_score_adj k st p \<and> oom_score_adj k st p < 225
                  then cpu_perf_mask k else cpu_lp_mask k)
      in if cpus_of (cpu_online_mask k) \<inter> cpus_of tier = {}
         then cpus_of (cpu_online_mask k)
         else cpus_of (cpu_online_mask k) \<inter> cpus_of tier) \<and>
   (cpus_of (cpu_online_mask k) \<noteq> {} \<longrightarrow> cpus_of (cass_cpus k st p) \<noteq> {})"
proof -
  have "cpus_of (cpu_online_mask k) \<noteq> {} \<longrightarrow> cpus_of (cass_cpus k st p) \<noteq> {}"
    using cass_cpus_nonzero [of k st p] by (simp add: cpus_of_empty)
  then show ?thesis
    by (simp add: cass_cpus_eq Let_def cpus_of_inter_empty cpus_of_and)
qed

text \<open>In the concrete system the task is hinted to the performance mask, which is online.\<close>

theorem cass_cpus_tier_witness:
  "cpus_of (cpu_online_mask demo) \<noteq> {} \<and> cpus_of (cass_cpus demo [] 5) \<noteq> {} \<and>
   cpus_of (cass_cpus demo [] 5) = cpus_of (cpu_online_mask demo) \<inter> cpus_of (cpu_perf_mask demo)"
proof -
  have a: "cpu_online_mask demo \<noteq> 0" by (simp add: demo_def)
  have b: "cpu_online_mask demo AND cpu_perf_mask demo \<noteq> 0" by (simp add: demo_def)
  have c: "oom_score_adj demo [] 5 = 0" by (simp add: demo_def)
  from b have d: "cpus_of (cpu_online_mask demo) \<inter> cpus_of (cpu_perf_mask demo) \<noteq> {}"
    by (simp add: cpus_of_empty flip: cpus_of_and)
  from a have e: "cpus_of (cpu_online_mask demo) \<noteq> {}" by (simp add: cpus_of_empty)
  show ?thesis using cass_cpus_tier [of demo "[]" 5] c d e by (simp add: Let_def)
qed

subsection \<open>The reduction\<close>

text \<open>
  Claim C3. For a non-empty candidate mask, walked from CPU 0 upwards, the loop with
  its two slots computes what the specification's reducer computes: the best starts as
  the first candidate and a later candidate replaces it when its load is less than or
  equal to the best's. The CPU returned is in the mask, no candidate has a smaller
  load, and every candidate with the same load has a CPU number that is not larger:
  among the candidates of least load the highest CPU number is returned. The starting
  contents of the two slots do not matter.
\<close>

theorem cass_find_best_last_minimum:
  assumes "cpus \<noteq> 0"
  shows "reducer ld (for_each_cpu cpus) = Some (cass_find_best ld cands0 cpus) \<and>
         cpu_isset (cass_find_best ld cands0 cpus) cpus \<and>
         (\<forall>c. cpu_isset c cpus \<longrightarrow>
            ld (cass_find_best ld cands0 cpus) \<le> ld c \<and>
            (ld c = ld (cass_find_best ld cands0 cpus) \<longrightarrow> c \<le> cass_find_best ld cands0 cpus))"
proof -
  from assms obtain x xs where l: "for_each_cpu cpus = x # xs"
    using for_each_cpu_nonempty [of cpus] by (cases "for_each_cpu cpus") auto
  have "reducer ld (for_each_cpu cpus) = Some (cass_find_best ld cands0 cpus)"
    by (simp add: l cass_find_best_reducer [OF l])
  with cass_find_best_props [OF assms, where ld = ld and ?cands0.0 = cands0] show ?thesis by blast
qed

text \<open>CPUs 0 and 1 with equal loads: CPU 1 is returned.\<close>

theorem cass_find_best_last_minimum_witness:
  "(3 :: 8 word) \<noteq> 0 \<and> cass_find_best (\<lambda>c. 120) stale (3 :: 8 word) = 1 \<and>
   reducer (\<lambda>c. 120) (for_each_cpu (3 :: 8 word)) = Some 1 \<and> cpu_isset 1 (3 :: 8 word)"
proof -
  have h: "(3 :: 8 word) \<noteq> 0" by simp
  have v: "cass_find_best (\<lambda>c. 120) stale (3 :: 8 word) = 1" by code_simp
  from cass_find_best_last_minimum [OF h, of "\<lambda>c. 120" stale] h v show ?thesis by simp
qed

subsection \<open>The load of a candidate\<close>

text \<open>
  Claim C4. With \<^verbatim>\<open>sync\<close> set, the load of a candidate is the load of its runqueue,
  plus the task's load if the candidate is not the task's previous CPU, minus the
  waker's load if the candidate is the waking CPU, where the subtraction stops at
  zero: read as a number the result is never negative, also when the waker's load is
  larger than what it is subtracted from. The additions are those of
  \<^verbatim>\<open>unsigned long\<close>; while the sum of the runqueue's and the task's loads stays below
  \<open>2^64\<close>, they are the additions of numbers.
\<close>

theorem cass_load_sync:
  "cass_load k st p_load True p_queued prev_cpu c =
     lsub_positive (cfs_load_avg k st c + (if c \<noteq> prev_cpu then p_load else 0))
       (if c = smp_processor_id k then task_h_load k st (current k) else 0) \<and>
   uint (cass_load k st p_load True p_queued prev_cpu c) =
     max 0 (uint (cfs_load_avg k st c + (if c \<noteq> prev_cpu then p_load else 0)) -
            (if c = smp_processor_id k then uint (task_h_load k st (current k)) else 0)) \<and>
   (uint (cfs_load_avg k st c) + uint p_load < 2 ^ 64 \<longrightarrow>
    uint (cass_load k st p_load True p_queued prev_cpu c) =
      max 0 (uint (cfs_load_avg k st c) + (if c \<noteq> prev_cpu then uint p_load else 0) -
             (if c = smp_processor_id k then uint (task_h_load k st (current k)) else 0)))"
  by (simp add: cass_load_def Let_def lsub_positive_zero uint_lsub_positive uint_ulong_add)

text \<open>
  Scenario 3 of the specification: the waking CPU 0 gets \<open>40 + 10 - 15 = 35\<close>, the
  previous CPU 1 keeps 40.
\<close>

theorem cass_load_sync_witness:
  "uint (cfs_load_avg demo_sync [] 0) + uint (10 :: ulong) < 2 ^ 64 \<and>
   uint (cass_load demo_sync [] 10 True False 1 0) = 35 \<and>
   uint (cass_load demo_sync [] 10 True False 1 1) = 40"
proof -
  have a: "uint (cfs_load_avg demo_sync [] 0) + uint (10 :: ulong) < 2 ^ 64"
    by (simp add: demo_sync_def demo_def)
  have b: "cfs_load_avg demo_sync [] 0 = 40" "smp_processor_id demo_sync = 0"
    "task_h_load demo_sync [] (current demo_sync) = 15" "cfs_load_avg demo_sync [] 1 = 40"
    by (simp_all add: demo_sync_def demo_def)
  show ?thesis
    using cass_load_sync [of demo_sync "[]" 10 False 1 0]
      cass_load_sync [of demo_sync "[]" 10 False 1 1] a
    by (simp add: b lsub_positive_def)
qed

text \<open>
  Claim C5. With \<^verbatim>\<open>sync\<close> clear: if the task counts as queued, its load is added to
  a candidate exactly when the candidate is not the task's previous CPU; if it does not,
  its load is added to every candidate.
\<close>

theorem cass_load_async:
  "cass_load k st p_load False p_queued prev_cpu c =
     (if p_queued then (if c \<noteq> prev_cpu then cfs_load_avg k st c + p_load else cfs_load_avg k st c)
      else cfs_load_avg k st c + p_load) \<and>
   (uint (cfs_load_avg k st c) + uint p_load < 2 ^ 64 \<longrightarrow>
    uint (cass_load k st p_load False p_queued prev_cpu c) =
      (if p_queued then (if c \<noteq> prev_cpu then uint (cfs_load_avg k st c) + uint p_load
                         else uint (cfs_load_avg k st c))
       else uint (cfs_load_avg k st c) + uint p_load))"
  by (simp add: cass_load_def Let_def uint_ulong_add)

text \<open>A queued task with previous CPU 0, seen from CPU 0 and from CPU 1; a task not queued.\<close>

theorem cass_load_async_witness:
  "uint (cfs_load_avg demo [] 0) + uint (20 :: ulong) < 2 ^ 64 \<and>
   uint (cass_load demo [] 20 False True 0 0) = 100 \<and>
   uint (cass_load demo [] 20 False True 1 0) = 120 \<and>
   uint (cass_load demo [] 20 False False 0 0) = 120"
proof -
  have a: "uint (cfs_load_avg demo [] 0) + uint (20 :: ulong) < 2 ^ 64"
    by (simp add: demo_def)
  have b: "cfs_load_avg demo [] 0 = 100" by (simp add: demo_def)
  show ?thesis
    using cass_load_async [of demo "[]" 20 True 0 0] cass_load_async [of demo "[]" 20 True 1 0]
      cass_load_async [of demo "[]" 20 False 0 0] a
    by (simp add: b)
qed

subsection \<open>The two ways out of the function\<close>

lemma cass_select_idle:
  assumes "cass_idle_path k cpu0 st p prev_cpu sd_flag wake_flags hint (cass_cpus k st p)
             (cass_sync k st wake_flags) = Inr (Some r, want_affine, st1)"
  shows "cass_select_task_rq_fair k cpu0 cands0 st p prev_cpu sd_flag wake_flags hint = Inr (r, st1)"
  using assms by (simp add: cass_select_task_rq_fair_def Let_def)

lemma cass_select_reduction:
  assumes "cass_idle_path k cpu0 st p prev_cpu sd_flag wake_flags hint (cass_cpus k st p)
             (cass_sync k st wake_flags) = Inr (None, want_affine, st1)"
  shows "cass_select_task_rq_fair k cpu0 cands0 st p prev_cpu sd_flag wake_flags hint =
           Inr (cass_find_best
                  (cass_load k (snd (cass_p_load k st1 p sd_flag wake_flags))
                     (fst (cass_p_load k st1 p sd_flag wake_flags))
                     (cass_sync k st wake_flags \<and> want_affine) (cass_p_queued k st p) prev_cpu)
                  cands0 (cass_cpus k st p),
                snd (cass_p_load k st1 p sd_flag wake_flags))"
  using assms by (simp add: cass_select_task_rq_fair_def Let_def split: prod.splits)

lemma cass_idle_path_no_wake:
  "\<not> cass_is_wake k sd_flag wake_flags \<Longrightarrow>
   cass_idle_path k cpu0 st p prev_cpu sd_flag wake_flags hint cpus sync = Inr (None, False, st)"
  by (simp add: cass_idle_path_def)

lemma cass_idle_path_wake:
  assumes "cass_is_wake k sd_flag wake_flags"
    and "cass_want_affine k cpu0 (record_wakee k p st) p hint cpus = Inr w"
  shows "cass_idle_path k cpu0 st p prev_cpu sd_flag wake_flags hint cpus sync =
           (if w \<and> wake_affine_idle k (record_wakee k p st) (smp_processor_id k) prev_cpu sync
                  \<noteq> nr_cpumask_bits cpus
            then Inr (Some (select_idle_sibling k (record_wakee k p st) p prev_cpu
                        (wake_affine_idle k (record_wakee k p st) (smp_processor_id k) prev_cpu sync)),
                      w, record_wakee k p st)
            else Inr (None, w, record_wakee k p st))"
  using assms by (simp add: cass_idle_path_def Let_def)

lemma cass_idle_path_state:
  assumes "cass_idle_path k cpu0 st p prev_cpu sd_flag wake_flags hint cpus sync = Inr (ret, w, st1)"
  shows "st1 = (if cass_is_wake k sd_flag wake_flags then record_wakee k p st else st)"
  using assms by (auto simp: cass_idle_path_def Let_def split: if_splits sum.splits)

lemma cass_idle_path_Some:
  assumes "cass_idle_path k cpu0 st p prev_cpu sd_flag wake_flags hint cpus sync = Inr (Some r, w, st1)"
  shows "w \<and> cass_is_wake k sd_flag wake_flags \<and>
         wake_affine_idle k st1 (smp_processor_id k) prev_cpu sync \<noteq> nr_cpumask_bits cpus \<and>
         r = select_idle_sibling k st1 p prev_cpu
               (wake_affine_idle k st1 (smp_processor_id k) prev_cpu sync)"
  using assms by (auto simp: cass_idle_path_def Let_def split: if_splits sum.splits)

lemma cass_load_no_task_load:
  "cass_load k st 0 sync p_queued prev_cpu =
     (\<lambda>c. if sync \<and> c = smp_processor_id k
          then lsub_positive (cfs_load_avg k st c) (task_h_load k st (current k))
          else cfs_load_avg k st c)"
  by (rule ext) (simp add: cass_load_def Let_def)

text \<open>
  The function faults exactly when the wake-affine block does: on a wakeup for which
  \<^verbatim>\<open>wake_wide\<close> says no while the unassigned \<^verbatim>\<open>cpu\<close> holds no CPU number of the
  mask.
\<close>

lemma cass_idle_path_fault:
  "cass_idle_path k cpu0 st p prev_cpu sd_flag wake_flags hint (cpus :: 'n::len cpumask) sync = Inl e \<longleftrightarrow>
     cass_is_wake k sd_flag wake_flags \<and> \<not> wake_wide k (record_wakee k p st) p hint \<and>
     \<not> (0 \<le> cpu0 \<and> cpu0 < int LENGTH('n))"
  by (cases e)
     (auto simp: cass_idle_path_def cass_want_affine_def cpumask_test_cpu_def Let_def
        split: sum.splits if_splits)

lemma cass_select_fault:
  "cass_select_task_rq_fair k cpu0 cands0 st p prev_cpu sd_flag wake_flags hint = Inl e \<longleftrightarrow>
     cass_idle_path k cpu0 st p prev_cpu sd_flag wake_flags hint (cass_cpus k st p)
       (cass_sync k st wake_flags) = Inl e"
  by (auto simp: cass_select_task_rq_fair_def Let_def split: sum.splits option.splits prod.splits)

text \<open>
  The other uninitialised object, the array \<^verbatim>\<open>cands\<close>, does not show in the result
  as long as a CPU is online.
\<close>

lemma cass_find_best_slots:
  assumes "cpus \<noteq> 0"
  shows "cass_find_best ld cands0 cpus = cass_find_best ld cands1 cpus"
proof -
  from assms obtain x xs where l: "for_each_cpu cpus = x # xs"
    using for_each_cpu_nonempty [of cpus] by (cases "for_each_cpu cpus") auto
  show ?thesis by (simp add: cass_find_best_reducer [OF l])
qed

lemma cass_select_slots:
  assumes "cpu_online_mask k \<noteq> 0"
  shows "cass_select_task_rq_fair k cpu0 cands0 st p prev_cpu sd_flag wake_flags hint =
         cass_select_task_rq_fair k cpu0 cands1 st p prev_cpu sd_flag wake_flags hint"
proof -
  have "cass_cpus k st p \<noteq> 0" using assms by (rule cass_cpus_nonzero)
  then have "cass_find_best ld cands0 (cass_cpus k st p) = cass_find_best ld cands1 (cass_cpus k st p)"
    for ld by (rule cass_find_best_slots)
  then show ?thesis
    by (simp add: cass_select_task_rq_fair_def Let_def split: sum.splits option.splits prod.splits)
qed

text \<open>The wake-affine block reads neither the runqueue loads nor the task loads.\<close>

lemma cass_want_affine_loads:
  "cass_want_affine (k\<lparr>cfs_load_avg := f, task_h_load := g\<rparr>) cpu0 st p hint cpus =
   cass_want_affine k cpu0 st p hint cpus"
  by (simp add: cass_want_affine_def)

lemma cass_idle_path_loads:
  "cass_idle_path (k\<lparr>cfs_load_avg := f, task_h_load := g\<rparr>) cpu0 st p prev_cpu sd_flag wake_flags
     hint cpus sync =
   cass_idle_path k cpu0 st p prev_cpu sd_flag wake_flags hint cpus sync"
  by (auto simp: cass_idle_path_def cass_want_affine_loads cass_is_wake_def Let_def split: sum.splits)

lemma cass_cpus_loads:
  "cass_cpus (k\<lparr>cfs_load_avg := f, task_h_load := g\<rparr>) st p = cass_cpus k st p"
  by (simp add: cass_cpus_eq Let_def)

lemma cass_sync_loads:
  "cass_sync (k\<lparr>cfs_load_avg := f, task_h_load := g\<rparr>) st wake_flags = cass_sync k st wake_flags"
  by (simp add: cass_sync_def)

subsection \<open>The CPU returned\<close>

text \<open>
  Claim C1, as stated, at a concrete call: CPUs 0 and 1 are online, the task last ran
  on CPU 3, the idle search answers with the previous CPU and the idle-sibling search
  keeps it. The function returns CPU 3, which is not online.
\<close>

theorem cass_result_offline_counterexample:
  "cpu_online_mask demo_offline \<noteq> 0 \<and>
   cass_select_task_rq_fair demo_offline 0 stale [] 5 3 0x10 0 0 = Inr (3, [Record_Wakee]) \<and>
   \<not> cpu_isset 3 (cpu_online_mask demo_offline)"
  by code_simp

text \<open>
  Claim C1, amended. For every call with a non-empty online mask whose wake-affine
  block completes, the function returns a CPU. When it returns from the loop, the CPU
  is in the candidate mask and therefore online. When it returns from the wake-affine
  block, the CPU is the one \<^verbatim>\<open>select_idle_sibling\<close> answered for the CPU that
  \<^verbatim>\<open>wake_affine_idle\<close> found; the function passes it on as it is.
\<close>

theorem cass_result_online:
  assumes online: "cpu_online_mask k \<noteq> 0"
    and path: "cass_idle_path k cpu0 st p prev_cpu sd_flag wake_flags hint (cass_cpus k st p)
                 (cass_sync k st wake_flags) = Inr (ret, want_affine, st1)"
  shows "\<exists>r st2. cass_select_task_rq_fair k cpu0 cands0 st p prev_cpu sd_flag wake_flags hint =
                   Inr (r, st2) \<and>
           (case ret of
              None \<Rightarrow> cpu_isset r (cass_cpus k st p) \<and> cpu_isset r (cpu_online_mask k)
            | Some r' \<Rightarrow>
                r = r' \<and>
                r = select_idle_sibling k st1 p prev_cpu
                      (wake_affine_idle k st1 (smp_processor_id k) prev_cpu
                         (cass_sync k st wake_flags)))"
proof (cases ret)
  case None
  define ld where "ld = cass_load k (snd (cass_p_load k st1 p sd_flag wake_flags))
     (fst (cass_p_load k st1 p sd_flag wake_flags))
     (cass_sync k st wake_flags \<and> want_affine) (cass_p_queued k st p) prev_cpu"
  have res: "cass_select_task_rq_fair k cpu0 cands0 st p prev_cpu sd_flag wake_flags hint =
      Inr (cass_find_best ld cands0 (cass_cpus k st p), snd (cass_p_load k st1 p sd_flag wake_flags))"
    unfolding ld_def by (rule cass_select_reduction [OF path [unfolded None]])
  have "cass_cpus k st p \<noteq> 0" using online by (rule cass_cpus_nonzero)
  then have m: "cpu_isset (cass_find_best ld cands0 (cass_cpus k st p)) (cass_cpus k st p)"
    by (rule cass_find_best_props(1))
  then have "cpu_isset (cass_find_best ld cands0 (cass_cpus k st p)) (cpu_online_mask k)"
    by (rule cass_cpus_online)
  with m res None show ?thesis by simp
next
  case (Some r')
  from cass_select_idle [OF path [unfolded Some]] cass_idle_path_Some [OF path [unfolded Some]] Some
  show ?thesis by simp
qed

text \<open>
  A wakeup without an idle CPU, which ends in the loop, and one whose idle search finds
  the waking CPU.
\<close>

theorem cass_result_online_witness:
  "cpu_online_mask demo \<noteq> 0 \<and>
   cass_idle_path demo 0 [] 5 1 0x10 0 0 (cass_cpus demo [] 5) (cass_sync demo [] 0) =
     Inr (None, True, [Record_Wakee]) \<and>
   (\<exists>r st2. cass_select_task_rq_fair demo 0 stale [] 5 1 0x10 0 0 = Inr (r, st2) \<and>
      cpu_isset r (cass_cpus demo [] 5) \<and> cpu_isset r (cpu_online_mask demo)) \<and>
   cpu_online_mask demo_idle \<noteq> 0 \<and>
   cass_idle_path demo_idle 0 [] 5 1 0x10 0 0 (cass_cpus demo_idle [] 5) (cass_sync demo_idle [] 0) =
     Inr (Some 0, True, [Record_Wakee]) \<and>
   (\<exists>st2. cass_select_task_rq_fair demo_idle 0 stale [] 5 1 0x10 0 0 = Inr (0, st2))"
proof -
  have a: "cpu_online_mask demo \<noteq> 0" by code_simp
  have b: "cass_idle_path demo 0 [] 5 1 0x10 0 0 (cass_cpus demo [] 5) (cass_sync demo [] 0) =
     Inr (None, True, [Record_Wakee])" by code_simp
  have c: "cpu_online_mask demo_idle \<noteq> 0" by code_simp
  have d: "cass_idle_path demo_idle 0 [] 5 1 0x10 0 0 (cass_cpus demo_idle [] 5)
     (cass_sync demo_idle [] 0) = Inr (Some 0, True, [Record_Wakee])" by code_simp
  from cass_result_online [OF a b, of stale] cass_result_online [OF c d, of stale] a b c d
  show ?thesis by simp
qed

subsection \<open>The wake-affine block\<close>

text \<open>
  Claim C6: the fast path is to be eligible only if \<^verbatim>\<open>wake_wide\<close> says no and the
  CPU running the wakeup is in the candidate mask. Line 72 tests the variable
  \<^verbatim>\<open>cpu\<close>, which has not been assigned yet, where line 75 passes
  \<^verbatim>\<open>this_cpu\<close>. With the wakeup on CPU 2, candidates 0 and 1 and the stray value 1
  in \<^verbatim>\<open>cpu\<close>, \<^verbatim>\<open>want_affine\<close> is set and the function returns CPU 2 from the fast
  path. With the wakeup on CPU 0 and the stray value 2, \<^verbatim>\<open>want_affine\<close> is clear
  although CPU 0 is a candidate; with the stray value 8 the test reads outside the mask.
\<close>

theorem cass_want_affine_tests_uninitialised_cpu:
  "\<not> wake_wide demo_cpu2 [Record_Wakee] 5 0 \<and>
   \<not> cpu_isset (smp_processor_id demo_cpu2) (cass_cpus demo_cpu2 [] 5) \<and>
   cass_want_affine demo_cpu2 1 [Record_Wakee] 5 0 (cass_cpus demo_cpu2 [] 5) = Inr True \<and>
   cass_select_task_rq_fair demo_cpu2 1 stale [] 5 1 0x10 0x01 0 = Inr (2, [Record_Wakee]) \<and>
   cpu_isset (smp_processor_id demo_idle) (cass_cpus demo_idle [] 5) \<and>
   cass_want_affine demo_idle 2 [Record_Wakee] 5 0 (cass_cpus demo_idle [] 5) = Inr False \<and>
   cass_want_affine demo_idle 8 [Record_Wakee] 5 0 (cass_cpus demo_idle [] 5) =
     Inl Bitmap_Index_Out_Of_Range"
  by code_simp

text \<open>
  Claim C7. On a wakeup whose \<^verbatim>\<open>want_affine\<close> is set: if \<^verbatim>\<open>wake_affine_idle\<close>
  answers with a CPU other than \<^verbatim>\<open>nr_cpumask_bits\<close>, the function returns what
  \<^verbatim>\<open>select_idle_sibling\<close> answers for that CPU, whatever the runqueue loads, the task
  loads and the starting contents of the candidate slots are; if it answers with
  \<^verbatim>\<open>nr_cpumask_bits\<close>, the function goes on to the loop and returns its result.
\<close>

theorem cass_idle_short_circuit:
  assumes wake: "cass_is_wake k sd_flag wake_flags"
    and elig: "cass_want_affine k cpu0 (record_wakee k p st) p hint (cass_cpus k st p) = Inr True"
  shows "let st1 = record_wakee k p st;
             wa_cpu = wake_affine_idle k st1 (smp_processor_id k) prev_cpu (cass_sync k st wake_flags)
         in if wa_cpu \<noteq> nr_cpumask_bits (cass_cpus k st p)
            then \<forall>f g cands1.
                   cass_select_task_rq_fair (k\<lparr>cfs_load_avg := f, task_h_load := g\<rparr>) cpu0 cands1
                     st p prev_cpu sd_flag wake_flags hint =
                   Inr (select_idle_sibling k st1 p prev_cpu wa_cpu, st1) \<and>
                   cass_select_task_rq_fair k cpu0 cands0 st p prev_cpu sd_flag wake_flags hint =
                   Inr (select_idle_sibling k st1 p prev_cpu wa_cpu, st1)
            else cass_select_task_rq_fair k cpu0 cands0 st p prev_cpu sd_flag wake_flags hint =
                   (let (p_load, st2) = cass_p_load k st1 p sd_flag wake_flags
                    in Inr (cass_find_best
                              (cass_load k st2 p_load (cass_sync k st wake_flags)
                                 (cass_p_queued k st p) prev_cpu)
                              cands0 (cass_cpus k st p), st2))"
proof -
  define st1 where "st1 = record_wakee k p st"
  define sync where "sync = cass_sync k st wake_flags"
  define wa_cpu where "wa_cpu = wake_affine_idle k st1 (smp_processor_id k) prev_cpu sync"
  define cpus where "cpus = cass_cpus k st p"
  have path: "cass_idle_path k cpu0 st p prev_cpu sd_flag wake_flags hint cpus sync =
           (if wa_cpu \<noteq> nr_cpumask_bits cpus
            then Inr (Some (select_idle_sibling k st1 p prev_cpu wa_cpu), True, st1)
            else Inr (None, True, st1))"
    using cass_idle_path_wake [OF wake elig, of prev_cpu sync]
    unfolding st1_def wa_cpu_def cpus_def by simp
  show ?thesis
  proof (cases "wa_cpu \<noteq> nr_cpumask_bits cpus")
    case True
    with path have p: "cass_idle_path k cpu0 st p prev_cpu sd_flag wake_flags hint cpus sync =
      Inr (Some (select_idle_sibling k st1 p prev_cpu wa_cpu), True, st1)" by simp
    have a: "cass_select_task_rq_fair k cpu0 cands0 st p prev_cpu sd_flag wake_flags hint =
      Inr (select_idle_sibling k st1 p prev_cpu wa_cpu, st1)"
      by (rule cass_select_idle [OF p [unfolded cpus_def sync_def]])
    have b: "cass_select_task_rq_fair (k\<lparr>cfs_load_avg := f, task_h_load := g\<rparr>) cpu0 cands1
        st p prev_cpu sd_flag wake_flags hint = Inr (select_idle_sibling k st1 p prev_cpu wa_cpu, st1)"
      for f g cands1
      by (rule cass_select_idle [where want_affine = True])
         (simp add: cass_idle_path_loads cass_cpus_loads cass_sync_loads
            p [unfolded cpus_def sync_def])
    from True a b show ?thesis
      unfolding st1_def [symmetric] sync_def [symmetric] Let_def wa_cpu_def [symmetric]
        cpus_def [symmetric]
      by simp
  next
    case False
    with path have p: "cass_idle_path k cpu0 st p prev_cpu sd_flag wake_flags hint cpus sync =
      Inr (None, True, st1)" by simp
    from False cass_select_reduction [OF p [unfolded cpus_def sync_def], of cands0]
    show ?thesis
      unfolding st1_def [symmetric] sync_def [symmetric] Let_def wa_cpu_def [symmetric]
        cpus_def [symmetric]
      by (simp add: split_beta)
  qed
qed

text \<open>An idle search that finds the waking CPU, and one that finds none.\<close>

theorem cass_idle_short_circuit_witness:
  "cass_is_wake demo_idle 0x10 0 \<and>
   cass_want_affine demo_idle 0 (record_wakee demo_idle 5 []) 5 0 (cass_cpus demo_idle [] 5) = Inr True \<and>
   cass_select_task_rq_fair demo_idle 0 stale [] 5 1 0x10 0 0 = Inr (0, [Record_Wakee]) \<and>
   cass_is_wake demo 0x10 0 \<and>
   cass_want_affine demo 0 (record_wakee demo 5 []) 5 0 (cass_cpus demo [] 5) = Inr True \<and>
   cass_select_task_rq_fair demo 0 stale [] 5 1 0x10 0 0 =
     Inr (1, [Record_Wakee, Sync_Entity_Load_Avg])"
proof -
  have w1: "cass_is_wake demo_idle 0x10 0" by code_simp
  have e1: "cass_want_affine demo_idle 0 (record_wakee demo_idle 5 []) 5 0 (cass_cpus demo_idle [] 5)
    = Inr True" by code_simp
  have w2: "cass_is_wake demo 0x10 0" by code_simp
  have e2: "cass_want_affine demo 0 (record_wakee demo 5 []) 5 0 (cass_cpus demo [] 5)
    = Inr True" by code_simp
  have v1: "wake_affine_idle demo_idle [Record_Wakee] (smp_processor_id demo_idle) 1
      (cass_sync demo_idle [] 0) = 0" by code_simp
  have n1: "nr_cpumask_bits (cass_cpus demo_idle [] 5) = 8" by (simp add: nr_cpumask_bits_def)
  have s1: "select_idle_sibling demo_idle [Record_Wakee] 5 1 0 = 0"
    "record_wakee demo_idle 5 [] = [Record_Wakee]" by code_simp+
  have r2: "cass_select_task_rq_fair demo 0 stale [] 5 1 0x10 0 0 =
     Inr (1, [Record_Wakee, Sync_Entity_Load_Avg])" by code_simp
  from cass_idle_short_circuit [OF w1 e1, of 1 stale]
  have "cass_select_task_rq_fair demo_idle 0 stale [] 5 1 0x10 0 0 = Inr (0, [Record_Wakee])"
    by (simp add: Let_def v1 n1 s1)
  with w1 e1 w2 e2 r2 cass_idle_short_circuit [OF w2 e2, of 1 stale] show ?thesis by simp
qed

subsection \<open>The task's load\<close>

text \<open>
  Claim C8. On a fork call the task's load is not refreshed: the state the function
  leaves is the one after the wake-affine block, the task's load is taken as 0, and in
  the loop every candidate's load is the load of its runqueue, less the waker's load on
  the waking CPU when \<^verbatim>\<open>sync\<close> is set. On any other call that reaches the loop,
  \<^verbatim>\<open>sync_entity_load_avg\<close> runs first, and the task's load and the runqueue loads
  are read in the state it leaves.
\<close>

theorem cass_fork_no_refresh:
  assumes path: "cass_idle_path k cpu0 st p prev_cpu sd_flag wake_flags hint (cass_cpus k st p)
                   (cass_sync k st wake_flags) = Inr (ret, want_affine, st1)"
  shows "(cass_is_fork k sd_flag wake_flags \<longrightarrow>
            st1 = (if cass_is_wake k sd_flag wake_flags then record_wakee k p st else st) \<and>
            cass_p_load k st1 p sd_flag wake_flags = (0, st1) \<and>
            (\<exists>r. cass_select_task_rq_fair k cpu0 cands0 st p prev_cpu sd_flag wake_flags hint =
                   Inr (r, st1)) \<and>
            (ret = None \<longrightarrow>
               cass_select_task_rq_fair k cpu0 cands0 st p prev_cpu sd_flag wake_flags hint =
                 Inr (cass_find_best
                        (\<lambda>c. if cass_sync k st wake_flags \<and> want_affine \<and> c = smp_processor_id k
                             then lsub_positive (cfs_load_avg k st1 c) (task_h_load k st1 (current k))
                             else cfs_load_avg k st1 c)
                        cands0 (cass_cpus k st p), st1))) \<and>
         (\<not> cass_is_fork k sd_flag wake_flags \<longrightarrow> ret = None \<longrightarrow>
            (let st2 = sync_entity_load_avg k p st1
             in cass_select_task_rq_fair k cpu0 cands0 st p prev_cpu sd_flag wake_flags hint =
                  Inr (cass_find_best
                         (cass_load k st2 (task_h_load k st2 p)
                            (cass_sync k st wake_flags \<and> want_affine) (cass_p_queued k st p) prev_cpu)
                         cands0 (cass_cpus k st p), st2)))"
proof (cases ret)
  case None
  note red = cass_select_reduction [OF path [unfolded None], of cands0]
  show ?thesis
  proof (cases "cass_is_fork k sd_flag wake_flags")
    case True
    then have pl: "cass_p_load k st1 p sd_flag wake_flags = (0, st1)"
      by (simp add: cass_p_load_def)
    have r: "cass_select_task_rq_fair k cpu0 cands0 st p prev_cpu sd_flag wake_flags hint =
                 Inr (cass_find_best
                        (\<lambda>c. if cass_sync k st wake_flags \<and> want_affine \<and> c = smp_processor_id k
                             then lsub_positive (cfs_load_avg k st1 c) (task_h_load k st1 (current k))
                             else cfs_load_avg k st1 c)
                        cands0 (cass_cpus k st p), st1)"
      using red by (simp add: pl cass_load_no_task_load)
    then have ex: "\<exists>r. cass_select_task_rq_fair k cpu0 cands0 st p prev_cpu sd_flag wake_flags hint =
                   Inr (r, st1)" by blast
    note s = cass_idle_path_state [OF path]
    from True pl r ex s show ?thesis by blast
  next
    case False
    then have pl: "cass_p_load k st1 p sd_flag wake_flags =
      (task_h_load k (sync_entity_load_avg k p st1) p, sync_entity_load_avg k p st1)"
      by (simp add: cass_p_load_def Let_def)
    from False red show ?thesis by (simp add: pl Let_def)
  qed
next
  case (Some r)
  have ex: "\<exists>r. cass_select_task_rq_fair k cpu0 cands0 st p prev_cpu sd_flag wake_flags hint =
                   Inr (r, st1)"
    using cass_select_idle [OF path [unfolded Some], of cands0] by blast
  have pl: "cass_is_fork k sd_flag wake_flags \<Longrightarrow> cass_p_load k st1 p sd_flag wake_flags = (0, st1)"
    by (simp add: cass_p_load_def)
  note s = cass_idle_path_state [OF path]
  from Some ex pl s show ?thesis by blast
qed

text \<open>
  A fork call leaves no trace of a refresh; a wakeup refreshes and then uses the
  task's load 20.
\<close>

theorem cass_fork_no_refresh_witness:
  "cass_idle_path demo 0 [] 5 1 0x08 0 0 (cass_cpus demo [] 5) (cass_sync demo [] 0) =
     Inr (None, False, []) \<and>
   cass_is_fork demo 0x08 0 \<and>
   cass_select_task_rq_fair demo 0 stale [] 5 1 0x08 0 0 = Inr (1, []) \<and>
   cass_idle_path demo 0 [] 5 1 0x10 0 0 (cass_cpus demo [] 5) (cass_sync demo [] 0) =
     Inr (None, True, [Record_Wakee]) \<and>
   \<not> cass_is_fork demo 0x10 0 \<and>
   cass_select_task_rq_fair demo 0 stale [] 5 1 0x10 0 0 =
     Inr (cass_find_best
            (cass_load demo [Record_Wakee, Sync_Entity_Load_Avg] 20 False False 1)
            stale (cass_cpus demo [] 5), [Record_Wakee, Sync_Entity_Load_Avg])"
proof -
  have a: "cass_idle_path demo 0 [] 5 1 0x08 0 0 (cass_cpus demo [] 5) (cass_sync demo [] 0) =
     Inr (None, False, [])" by code_simp
  have b: "cass_is_fork demo 0x08 0" by code_simp
  have c: "cass_select_task_rq_fair demo 0 stale [] 5 1 0x08 0 0 = Inr (1, [])" by code_simp
  have d: "cass_idle_path demo 0 [] 5 1 0x10 0 0 (cass_cpus demo [] 5) (cass_sync demo [] 0) =
     Inr (None, True, [Record_Wakee])" by code_simp
  have e: "\<not> cass_is_fork demo 0x10 0" by code_simp
  have f: "sync_entity_load_avg demo 5 [Record_Wakee] = [Record_Wakee, Sync_Entity_Load_Avg]"
    "task_h_load demo [Record_Wakee, Sync_Entity_Load_Avg] 5 = 20"
    "cass_sync demo [] 0 = False" "cass_p_queued demo [] 5 = False"
    by code_simp+
  from cass_fork_no_refresh [OF a, of stale] cass_fork_no_refresh [OF d, of stale] a b c d e
  show ?thesis by (simp add: Let_def f)
qed

subsection \<open>Repeated calls\<close>

text \<open>
  Claim C9: two calls with the same task, flags, parameters and collaborator answers
  are to return the same CPU. Line 72 reads the unassigned variable \<^verbatim>\<open>cpu\<close>, so
  the result also depends on what that variable happens to hold: with 0 the function
  returns CPU 0 from the fast path, with 2 it returns CPU 1 from the loop, everything
  else being equal.
\<close>

theorem cass_result_depends_on_uninitialised_cpu:
  "cass_select_task_rq_fair demo_idle 0 stale [] 5 1 0x10 0 0 = Inr (0, [Record_Wakee]) \<and>
   cass_select_task_rq_fair demo_idle 2 stale [] 5 1 0x10 0 0 =
     Inr (1, [Record_Wakee, Sync_Entity_Load_Avg])"
  by code_simp

subsection \<open>The running task\<close>

text \<open>
  Claim C10. A task that is \<^verbatim>\<open>current\<close> counts as queued even when it is not on
  a runqueue. With \<^verbatim>\<open>sync\<close> clear its load is then added to the candidates other than
  its previous CPU and not to the previous CPU, in \<open>cass_load\<close> and in the result of
  the whole function.
\<close>

theorem cass_current_counts_as_queued:
  assumes cur: "current k = p"
  shows "cass_p_queued k st p \<and>
         (\<forall>st' p_load prev_cpu c.
            cass_load k st' p_load False (cass_p_queued k st p) prev_cpu c =
              (if c \<noteq> prev_cpu then cfs_load_avg k st' c + p_load else cfs_load_avg k st' c)) \<and>
         (\<forall>want_affine st1.
            cass_idle_path k cpu0 st p prev_cpu sd_flag wake_flags hint (cass_cpus k st p)
              (cass_sync k st wake_flags) = Inr (None, want_affine, st1) \<and>
            \<not> (cass_sync k st wake_flags \<and> want_affine) \<longrightarrow>
            cass_select_task_rq_fair k cpu0 cands0 st p prev_cpu sd_flag wake_flags hint =
              (let (p_load, st2) = cass_p_load k st1 p sd_flag wake_flags
               in Inr (cass_find_best
                         (\<lambda>c. if c \<noteq> prev_cpu then cfs_load_avg k st2 c + p_load
                              else cfs_load_avg k st2 c)
                         cands0 (cass_cpus k st p), st2)))"
proof -
  from cur have q: "cass_p_queued k st p" by (simp add: cass_p_queued_def)
  have l: "cass_load k st' p_load False True prev_cpu =
      (\<lambda>c. if c \<noteq> prev_cpu then cfs_load_avg k st' c + p_load else cfs_load_avg k st' c)"
    for st' p_load prev_cpu
    by (rule ext) (simp add: cass_load_def Let_def)
  have "cass_select_task_rq_fair k cpu0 cands0 st p prev_cpu sd_flag wake_flags hint =
              (let (p_load, st2) = cass_p_load k st1 p sd_flag wake_flags
               in Inr (cass_find_best
                         (\<lambda>c. if c \<noteq> prev_cpu then cfs_load_avg k st2 c + p_load
                              else cfs_load_avg k st2 c)
                         cands0 (cass_cpus k st p), st2))"
    if path: "cass_idle_path k cpu0 st p prev_cpu sd_flag wake_flags hint (cass_cpus k st p)
              (cass_sync k st wake_flags) = Inr (None, want_affine, st1)"
      and ns: "\<not> (cass_sync k st wake_flags \<and> want_affine)" for want_affine st1
    using cass_select_reduction [OF path, of cands0] ns q
    by (simp add: split_beta l)
  with q l show ?thesis by simp
qed

text \<open>
  The running task with previous CPU 0: CPU 0 keeps its load 100, CPU 1 gets 120, and
  CPU 0 is returned. Had the load been added to both, the tie would have gone to CPU 1.
\<close>

theorem cass_current_counts_as_queued_witness:
  "current demo_self = 5 \<and> \<not> task_on_rq_queued demo_self [] 5 \<and> cass_p_queued demo_self [] 5 \<and>
   cass_idle_path demo_self 0 [] 5 0 0 0 0 (cass_cpus demo_self [] 5) (cass_sync demo_self [] 0) =
     Inr (None, False, []) \<and>
   cass_select_task_rq_fair demo_self 0 stale [] 5 0 0 0 0 = Inr (0, [Sync_Entity_Load_Avg])"
proof -
  have a: "current demo_self = 5" by code_simp
  have b: "\<not> task_on_rq_queued demo_self [] 5" by code_simp
  have c: "cass_idle_path demo_self 0 [] 5 0 0 0 0 (cass_cpus demo_self [] 5)
     (cass_sync demo_self [] 0) = Inr (None, False, [])" by code_simp
  have d: "cass_select_task_rq_fair demo_self 0 stale [] 5 0 0 0 0 = Inr (0, [Sync_Entity_Load_Avg])"
    by code_simp
  from cass_current_counts_as_queued [OF a, of "[]" 0 0 0 0 0 stale] a b c d
  show ?thesis by simp
qed

end
